theory Spec2Isabelle
  imports Complex_Main
begin

section \<open>The PhotoGallery widget of photogallery.js\<close>

text \<open>
  The class \<^verbatim>\<open>PhotoGallery\<close> keeps its navigation and gesture state in fields of
  \<^verbatim>\<open>this\<close> and talks to the page through DOM writes. The fields become a record,
  every method becomes a function from the widget before the call to the widget after it,
  and the DOM writes a method performs are appended, in program order, to a log kept in
  the record. Numbers that are slide indices are integers; pointer coordinates and
  the percentages derived from them are reals (the rounding of IEEE doubles is not
  modelled).
\<close>

subsection \<open>Configuration and items\<close>

text \<open>
  The options that the navigation and gesture code reads. \<^verbatim>\<open>nav\<close> is
  \<^verbatim>\<open>'dots'\<close>, \<^verbatim>\<open>'thumbs'\<close> or \<^verbatim>\<open>false\<close>; \<^verbatim>\<open>autoplay\<close> is a time in
  milliseconds or \<^verbatim>\<open>false\<close>. The options that only style the page (width, ratio,
  thumbnail sizes, fullscreen) are left out.
\<close>

record config =
  nav :: "string option"
  loop :: bool
  autoplay :: "int option"
  arrows :: bool
  click :: bool
  swipe :: bool
  keyboard :: bool

definition defaults :: config where
  "defaults =
     \<lparr>nav = Some ''dots'', loop = False, autoplay = None, arrows = True,
      click = True, swipe = True, keyboard = True\<rparr>"

text \<open>JavaScript truthiness of the two options that are tested with a bare \<^verbatim>\<open>if\<close>.\<close>

definition navOn :: "config \<Rightarrow> bool" where
  "navOn c = (case nav c of None \<Rightarrow> False | Some v \<Rightarrow> v \<noteq> [])"

definition autoplayOn :: "config \<Rightarrow> bool" where
  "autoplayOn c = (case autoplay c of None \<Rightarrow> False | Some ms \<Rightarrow> ms \<noteq> 0)"

record item =
  src :: string
  thumb :: string
  alt :: string

subsection \<open>DOM writes\<close>

datatype transition = TransNone | TransEaseOut

text \<open>
  The argument of \<^verbatim>\<open>translateX(...%)\<close>. A drag on a stage of width 0 divides by
  zero, which in JavaScript gives an infinity or NaN and not an exception.
\<close>

datatype percent = Pct real | PctInf | PctNegInf | PctNaN

text \<open>
  One entry per write: the two style properties of the track, the removal of the class
  \<^verbatim>\<open>active\<close> from every thumb of a strip that has thumbs, its addition to one
  thumb, and the call of \<^verbatim>\<open>scrollIntoView\<close> on that thumb.
\<close>

datatype dom_write =
    SetTransition transition
  | SetTransform percent
  | ClearActive
  | AddActive nat
  | ScrollIntoView nat

subsection \<open>The widget\<close>

text \<open>
  \<^verbatim>\<open>stageWidth\<close> is \<^verbatim>\<open>this.stage.offsetWidth\<close>. \<^verbatim>\<open>interval\<close> is the handle
  stored in \<^verbatim>\<open>this.interval\<close> (undefined before the first \<^verbatim>\<open>setInterval\<close>);
  \<^verbatim>\<open>timers\<close> is the set of interval handles the browser still fires,
  \<^verbatim>\<open>nextTimer\<close> the next fresh handle, and \<^verbatim>\<open>hoverListeners\<close> the number of
  \<^verbatim>\<open>mouseenter\<close>/\<^verbatim>\<open>mouseleave\<close> listener pairs that \<^verbatim>\<open>startAutoplay\<close> has
  added to the container.
\<close>

record gallery =
  config :: config
  activeIndex :: int
  items :: "item list"
  isDragging :: bool
  startPos :: real
  currentTranslate :: int
  prevTranslate :: int
  stageWidth :: nat
  domLog :: "dom_write list"
  interval :: "nat option"
  timers :: "nat set"
  nextTimer :: nat
  hoverListeners :: nat

subsection \<open>Navigation\<close>

text \<open>
  \<^verbatim>\<open>goto(index, animate)\<close>: the two \<^verbatim>\<open>if\<close> statements of each branch run one
  after the other on the same variable, so the second test sees the value assigned by the
  first. The navigation strip has one child per item, so \<^verbatim>\<open>thumbs.forEach\<close> writes
  nothing when there is no item, and \<^verbatim>\<open>thumbs[index]\<close> is defined exactly when the
  index is that of an item.
\<close>

definition goto :: "int \<Rightarrow> bool \<Rightarrow> gallery \<Rightarrow> gallery" where
  "goto index animate s =
     (let n = int (length (items s));
          index1 =
            (if loop (config s)
             then (if index < 0 then n - 1 else index)
             else (if index < 0 then 0 else index));
          index2 =
            (if loop (config s)
             then (if index1 \<ge> n then 0 else index1)
             else (if index1 \<ge> n then n - 1 else index1));
          percentage = - (index2 * 100);
          s1 = s\<lparr>activeIndex := index2\<rparr>;
          s2 = s1\<lparr>domLog := domLog s1 @
                  [SetTransition (if animate then TransEaseOut else TransNone),
                   SetTransform (Pct (of_int percentage))]\<rparr>;
          s3 = s2\<lparr>currentTranslate := percentage\<rparr>
      in if navOn (config s3)
         then s3\<lparr>domLog := domLog s3 @
                  (if n = 0 then [] else [ClearActive]) @
                  (if 0 \<le> index2 \<and> index2 < n
                   then [AddActive (nat index2), ScrollIntoView (nat index2)]
                   else [])\<rparr>
         else s3)"

definition next_slide :: "gallery \<Rightarrow> gallery" where
  "next_slide s = goto (activeIndex s + 1) True s"

definition prev_slide :: "gallery \<Rightarrow> gallery" where
  "prev_slide s = goto (activeIndex s - 1) True s"

definition render :: "gallery \<Rightarrow> gallery" where
  "render s = goto (activeIndex s) False s"

subsection \<open>Autoplay\<close>

definition setInterval :: "gallery \<Rightarrow> nat \<times> gallery" where
  "setInterval s =
     (nextTimer s, s\<lparr>timers := insert (nextTimer s) (timers s), nextTimer := Suc (nextTimer s)\<rparr>)"




definition startAutoplay :: "gallery \<Rightarrow> gallery" where
  "startAutoplay s =
     (case setInterval s of (h, s') \<Rightarrow>
        s'\<lparr>interval := Some h, hoverListeners := Suc (hoverListeners s')\<rparr>)"




subsection \<open>Touch and mouse drag\<close>

text \<open>
  A mouse event carries \<^verbatim>\<open>pageX\<close>; a touch event carries the list \<^verbatim>\<open>touches\<close>,
  which for \<^verbatim>\<open>touchstart\<close> and \<^verbatim>\<open>touchmove\<close> holds at least the touch that
  caused the event: its \<^verbatim>\<open>clientX\<close> comes first, the other touches follow.
\<close>

datatype event = MouseEvent real | TouchEvent real "real list"

fun getPositionX :: "event \<Rightarrow> real" where
  "getPositionX (MouseEvent pageX) = pageX"
| "getPositionX (TouchEvent clientX others) = clientX"

definition touchStart :: "event \<Rightarrow> gallery \<Rightarrow> gallery" where
  "touchStart event s =
     (let s1 = s\<lparr>isDragging := True\<rparr>;
          s2 = s1\<lparr>startPos := getPositionX event\<rparr>
      in s2\<lparr>domLog := domLog s2 @ [SetTransition TransNone]\<rparr>)"

definition touchMove :: "event \<Rightarrow> gallery \<Rightarrow> gallery" where
  "touchMove event s =
     (if \<not> isDragging s then s
      else
        let currentPosition = getPositionX event;
            diff = currentPosition - startPos s;
            w = stageWidth s;
            nextTranslate =
              (if w = 0
               then (if diff > 0 then PctInf else if diff < 0 then PctNegInf else PctNaN)
               else Pct (- (of_int (activeIndex s) * 100) + diff / real w * 100))
        in s\<lparr>domLog := domLog s @ [SetTransform nextTranslate]\<rparr>)"

text \<open>
  The class body defines \<^verbatim>\<open>_touchEnd\<close> twice; the later definition replaces the
  earlier one, so this is the method that runs. It takes the event and does not read it;
  the \<^verbatim>\<open>mouseleave\<close> listener of the stage calls it with no argument.
\<close>

definition touchEnd :: "event option \<Rightarrow> gallery \<Rightarrow> gallery" where
  "touchEnd event s = (let s1 = s\<lparr>isDragging := False\<rparr> in goto (activeIndex s1) True s1)"

text \<open>The \<^verbatim>\<open>mouseleave\<close> listener that \<^verbatim>\<open>_bindEvents\<close> adds to the stage.\<close>

definition stage_mouseleave :: "gallery \<Rightarrow> gallery" where
  "stage_mouseleave s = (if isDragging s then touchEnd None s else s)"

subsection \<open>Construction\<close>

text \<open>
  The constructor, given the merged configuration, the items that
  \<^verbatim>\<open>_initStructure\<close> reads from the \<^verbatim>\<open>img\<close> elements and the width of the stage:
  it sets the fields, renders the first slide without animation and starts autoplay when
  the option is set. Interval handles are positive.
\<close>

definition construct :: "config \<Rightarrow> item list \<Rightarrow> nat \<Rightarrow> gallery" where
  "construct cfg imgs width =
     (let s0 = \<lparr>config = cfg, activeIndex = 0, items = imgs, isDragging = False,
                startPos = 0, currentTranslate = 0, prevTranslate = 0,
                stageWidth = width, domLog = [], interval = None, timers = {},
                nextTimer = 1, hoverListeners = 0\<rparr>;
          s1 = render s0
      in if autoplayOn cfg then startAutoplay s1 else s1)"

subsection \<open>Sequences of calls\<close>

text \<open>
  The two navigation calls a host can make through the arrows, the keyboard, a click on
  the track or the autoplay timer, and the widgets a sequence of such calls passes
  through: \<open>trace cs s\<close> lists the widget after the first call, after the second, and so
  on.
\<close>

datatype nav_call = Advance | Retreat

fun call :: "nav_call \<Rightarrow> gallery \<Rightarrow> gallery" where
  "call Advance s = next_slide s"
| "call Retreat s = prev_slide s"

fun trace :: "nav_call list \<Rightarrow> gallery \<Rightarrow> gallery list" where
  "trace [] s = []"
| "trace (c # cs) s = call c s # trace cs (call c s)"

text \<open>
  One gesture as the listeners see it: the event that starts it, the move events in
  order of arrival, and the event that ends it (absent when the pointer leaves the stage).
\<close>

definition dragging :: "event \<Rightarrow> event list \<Rightarrow> gallery \<Rightarrow> gallery" where
  "dragging down moves s = foldl (\<lambda>s' m. touchMove m s') (touchStart down s) moves"

definition dragSession :: "event \<Rightarrow> event list \<Rightarrow> event option \<Rightarrow> gallery \<Rightarrow> gallery" where
  "dragSession down moves up s = touchEnd up (dragging down moves s)"

text \<open>\<open>goto\<close> on the current index, once per flag of the list, each time with that flag.\<close>

definition regoto :: "bool list \<Rightarrow> gallery \<Rightarrow> gallery" where
  "regoto flags s = foldl (\<lambda>s' a. goto (activeIndex s') a s') s flags"

text \<open>The DOM writes performed between an earlier widget and a later one.\<close>

definition emitted :: "gallery \<Rightarrow> gallery \<Rightarrow> dom_write list" where
  "emitted s s' = drop (length (domLog s)) (domLog s')"

subsection \<open>Example galleries\<close>

definition photo :: item where
  "photo = \<lparr>src = ''a.jpg'', thumb = ''a.jpg'', alt = ''''\<rparr>"

definition looping :: config where
  "looping = defaults\<lparr>loop := True\<rparr>"


section \<open>Facts about navigation\<close>

lemma goto_items: "items (goto i a s) = items s"
  by (simp add: goto_def Let_def)

lemma goto_config: "config (goto i a s) = config s"
  by (simp add: goto_def Let_def)

lemma goto_isDragging: "isDragging (goto i a s) = isDragging s"
  by (simp add: goto_def Let_def)


lemma goto_interval: "interval (goto i a s) = interval s"
  by (simp add: goto_def Let_def)

text \<open>The index that \<open>goto\<close> stores, with the two tests of each branch written out.\<close>

lemma goto_activeIndex:
  "activeIndex (goto i a s) =
     (let n = int (length (items s)) in
      if loop (config s)
      then (if i < 0 then (if n - 1 \<ge> n then 0 else n - 1) else if i \<ge> n then 0 else i)
      else (if i < 0 then (if 0 \<ge> n then n - 1 else 0) else if i \<ge> n then n - 1 else i))"
  by (simp add: goto_def Let_def)

text \<open>The writes of one call of \<open>goto\<close>, in terms of the index it stores.\<close>

lemma goto_domLog:
  "domLog (goto i a s) =
     domLog s @
     [SetTransition (if a then TransEaseOut else TransNone),
      SetTransform (Pct (- (of_int (activeIndex (goto i a s)) * 100)))] @
     (if navOn (config s)
      then (if items s = [] then [] else [ClearActive]) @
           (if 0 \<le> activeIndex (goto i a s) \<and>
               activeIndex (goto i a s) < int (length (items s))
            then [AddActive (nat (activeIndex (goto i a s))),
                  ScrollIntoView (nat (activeIndex (goto i a s)))]
            else [])
      else [])"
  by (simp add: goto_def Let_def)

lemma goto_in_range:
  assumes "items s \<noteq> []"
  shows "0 \<le> activeIndex (goto i a s) \<and> activeIndex (goto i a s) < int (length (items s))"
proof -
  from assms have "0 < int (length (items s))" by simp
  then show ?thesis by (simp add: goto_activeIndex Let_def)
qed

lemma goto_current:
  assumes "0 \<le> activeIndex s" and "activeIndex s < int (length (items s))"
  shows "activeIndex (goto (activeIndex s) a s) = activeIndex s"
  using assms by (simp add: goto_activeIndex Let_def)

lemma call_items: "items (call c s) = items s"
  by (cases c) (simp_all add: next_slide_def prev_slide_def goto_items)

lemma call_in_range:
  assumes "items s \<noteq> []"
  shows "0 \<le> activeIndex (call c s) \<and> activeIndex (call c s) < int (length (items s))"
  using assms by (cases c) (simp_all add: next_slide_def prev_slide_def goto_in_range)

section \<open>Facts about drags\<close>

lemma touchMove_activeIndex: "activeIndex (touchMove e s) = activeIndex s"
  by (simp add: touchMove_def Let_def)

lemma touchMove_items: "items (touchMove e s) = items s"
  by (simp add: touchMove_def Let_def)

lemma touchMove_isDragging: "isDragging (touchMove e s) = isDragging s"
  by (simp add: touchMove_def Let_def)

lemma touchMove_timers: "timers (touchMove e s) = timers s"
  by (simp add: touchMove_def Let_def)

lemma touchMove_config: "config (touchMove e s) = config s"
  by (simp add: touchMove_def Let_def)

lemma moves_keep:
  "activeIndex (foldl (\<lambda>s' m. touchMove m s') s ms) = activeIndex s \<and>
   items (foldl (\<lambda>s' m. touchMove m s') s ms) = items s \<and>
   isDragging (foldl (\<lambda>s' m. touchMove m s') s ms) = isDragging s \<and>
   timers (foldl (\<lambda>s' m. touchMove m s') s ms) = timers s \<and>
   config (foldl (\<lambda>s' m. touchMove m s') s ms) = config s"
  by (induction ms arbitrary: s)
     (simp_all add: touchMove_activeIndex touchMove_items touchMove_isDragging
        touchMove_timers touchMove_config)

lemma dragging_keeps:
  "activeIndex (dragging d ms s) = activeIndex s \<and>
   items (dragging d ms s) = items s \<and>
   isDragging (dragging d ms s) \<and>
   timers (dragging d ms s) = timers s \<and>
   config (dragging d ms s) = config s"
  by (simp add: dragging_def moves_keep) (simp add: touchStart_def Let_def)

section \<open>Facts about autoplay\<close>

lemma touchStart_timers: "timers (touchStart e s) = timers s"
  by (simp add: touchStart_def Let_def)






section \<open>Claims about the navigation state machine\<close>

text \<open>
  C2. With at least one item, in Clamp mode as in Loop mode, and starting from an active
  index that is the index of an item, every widget reached by a finite sequence of
  \<^verbatim>\<open>next()\<close>/\<^verbatim>\<open>prev()\<close> calls has an active index between 0 and N-1: the bound
  holds after each call of the sequence, not only after the last.
\<close>

theorem C2_index_stays_in_range:
  assumes "items s \<noteq> []"
    and "0 \<le> activeIndex s" and "activeIndex s < int (length (items s))"
  shows "length (trace cs s) = length cs \<and>
         list_all (\<lambda>s'. 0 \<le> activeIndex s' \<and> activeIndex s' < int (length (items s)))
           (trace cs s)"
  using assms
proof (induction cs arbitrary: s)
  case Nil
  then show ?case by simp
next
  case (Cons c cs)
  have here: "0 \<le> activeIndex (call c s) \<and> activeIndex (call c s) < int (length (items s))"
    using Cons.prems(1) by (rule call_in_range)
  have same: "items (call c s) = items s"
    by (rule call_items)
  have "length (trace cs (call c s)) = length cs \<and>
        list_all (\<lambda>s'. 0 \<le> activeIndex s' \<and>
                    activeIndex s' < int (length (items (call c s))))
          (trace cs (call c s))"
    using Cons.prems(1) here same by (intro Cons.IH) simp_all
  with here same show ?case by simp
qed

theorem C2_index_stays_in_range_witness:
  "map activeIndex
     (trace [Advance, Advance, Advance, Retreat, Retreat, Retreat]
        (construct looping [photo, photo, photo] 800)) = [1, 2, 0, 2, 1, 0] \<and>
   list_all (\<lambda>s'. 0 \<le> activeIndex s' \<and> activeIndex s' < 3)
     (trace [Advance, Advance, Advance, Retreat, Retreat, Retreat]
        (construct looping [photo, photo, photo] 800))"
proof -
  let ?s = "construct looping [photo, photo, photo] 800"
  have items: "items ?s = [photo, photo, photo]"
    by (simp add: construct_def render_def goto_items looping_def defaults_def
        autoplayOn_def Let_def)
  have idx: "activeIndex ?s = 0"
    by (simp add: construct_def render_def goto_activeIndex looping_def defaults_def
        autoplayOn_def Let_def)
  have cfg: "loop (config ?s)"
    by (simp add: construct_def render_def goto_config looping_def defaults_def
        autoplayOn_def Let_def)
  have h1: "items ?s \<noteq> []" using items by simp
  have h2: "0 \<le> activeIndex ?s" using idx by simp
  have h3: "activeIndex ?s < int (length (items ?s))" using idx items by simp
  have vals: "map activeIndex
     (trace [Advance, Advance, Advance, Retreat, Retreat, Retreat] ?s) = [1, 2, 0, 2, 1, 0]"
    using items idx cfg
    by (simp add: next_slide_def prev_slide_def goto_activeIndex goto_items goto_config
        Let_def)
  from C2_index_stays_in_range [OF h1 h2 h3,
      of "[Advance, Advance, Advance, Retreat, Retreat, Retreat]"] items vals
  show ?thesis by simp
qed

text \<open>
  C3. In Loop mode with at least one item, \<^verbatim>\<open>goto(index)\<close> stores N-1 for every
  negative index, 0 for every index from N on, and the index itself otherwise; on five
  items \<^verbatim>\<open>goto(-1)\<close> stores 4 and \<^verbatim>\<open>goto(5)\<close> stores 0.
\<close>

theorem C3_loop_resolution:
  assumes "loop (config s)" and "items s \<noteq> []"
  shows "activeIndex (goto i a s) =
           (if i < 0 then int (length (items s)) - 1
            else if i \<ge> int (length (items s)) then 0
            else i)"
  using assms by (simp add: goto_activeIndex Let_def)

theorem C3_loop_resolution_witness:
  "activeIndex (goto (- 1) True (construct looping (replicate 5 photo) 800)) = 4 \<and>
   activeIndex (goto 5 True (construct looping (replicate 5 photo) 800)) = 0 \<and>
   activeIndex (goto 3 True (construct looping (replicate 5 photo) 800)) = 3"
proof -
  let ?s = "construct looping (replicate 5 photo) 800"
  have items: "items ?s = replicate 5 photo"
    by (simp add: construct_def render_def goto_items looping_def defaults_def
        autoplayOn_def Let_def)
  have h1: "loop (config ?s)"
    by (simp add: construct_def render_def goto_config looping_def defaults_def
        autoplayOn_def Let_def)
  have h2: "items ?s \<noteq> []" using items by simp
  from C3_loop_resolution [OF h1 h2, of "- 1" True]
       C3_loop_resolution [OF h1 h2, of 5 True]
       C3_loop_resolution [OF h1 h2, of 3 True] items
  show ?thesis by simp
qed

text \<open>
  C4. In Clamp mode with at least one item, \<^verbatim>\<open>goto(index)\<close> stores
  \<open>max 0 (min (N-1) index)\<close> for every integer index, so \<^verbatim>\<open>goto(-1)\<close> stores 0 and
  \<^verbatim>\<open>goto(N)\<close> stores N-1; and from the last index any number of \<^verbatim>\<open>next()\<close> calls
  leaves the active index at N-1.
\<close>

theorem C4_clamp_resolution:
  assumes "\<not> loop (config s)" and "items s \<noteq> []"
  shows "activeIndex (goto i a s) = max 0 (min (int (length (items s)) - 1) i) \<and>
         activeIndex (goto (- 1) a s) = 0 \<and>
         activeIndex (goto (int (length (items s))) a s) = int (length (items s)) - 1 \<and>
         (activeIndex s = int (length (items s)) - 1 \<longrightarrow>
            activeIndex ((next_slide ^^ k) s) = int (length (items s)) - 1)"
proof -
  from assms(2) have pos: "0 < int (length (items s))" by simp
  have general: "activeIndex (goto i a s) = max 0 (min (int (length (items s)) - 1) i)"
    using assms(1) pos by (simp add: goto_activeIndex Let_def)
  have low: "activeIndex (goto (- 1) a s) = 0"
    using assms(1) pos by (simp add: goto_activeIndex Let_def)
  have high: "activeIndex (goto (int (length (items s))) a s) = int (length (items s)) - 1"
    using assms(1) pos by (simp add: goto_activeIndex Let_def)
  have stay: "activeIndex ((next_slide ^^ k) s) = int (length (items s)) - 1 \<and>
              items ((next_slide ^^ k) s) = items s \<and>
              config ((next_slide ^^ k) s) = config s"
    if "activeIndex s = int (length (items s)) - 1"
  proof (induction k)
    case 0
    from that show ?case by simp
  next
    case (Suc k)
    with assms(1) pos show ?case
      by (simp add: next_slide_def goto_activeIndex goto_items goto_config Let_def)
  qed
  from general low high stay show ?thesis by blast
qed

theorem C4_clamp_resolution_witness:
  "activeIndex (goto 7 True (construct defaults (replicate 5 photo) 800)) = 4 \<and>
   activeIndex (goto (- 1) True (construct defaults (replicate 5 photo) 800)) = 0 \<and>
   activeIndex (goto 5 True (construct defaults (replicate 5 photo) 800)) = 4 \<and>
   activeIndex ((next_slide ^^ 3) (goto 4 True (construct defaults (replicate 5 photo) 800))) = 4"
proof -
  let ?s = "construct defaults (replicate 5 photo) 800"
  let ?t = "goto 4 True ?s"
  have items: "items ?s = replicate 5 photo"
    by (simp add: construct_def render_def goto_items defaults_def autoplayOn_def Let_def)
  have cfg: "\<not> loop (config ?s)"
    by (simp add: construct_def render_def goto_config defaults_def autoplayOn_def Let_def)
  have h2: "items ?s \<noteq> []" using items by simp
  have cfg': "\<not> loop (config ?t)" using cfg by (simp add: goto_config)
  have items': "items ?t = replicate 5 photo" using items by (simp add: goto_items)
  have h2': "items ?t \<noteq> []" using items' by simp
  have last: "activeIndex ?t = int (length (items ?t)) - 1"
    using cfg items by (simp add: goto_activeIndex goto_items Let_def)
  from C4_clamp_resolution [OF cfg h2, of 7 True 0]
       C4_clamp_resolution [OF cfg' h2', of 0 True 3] last items items'
  show ?thesis by simp
qed

text \<open>
  C10. In Loop mode with at least one item and an active index that is the index of an
  item, \<^verbatim>\<open>next()\<close> followed by \<^verbatim>\<open>prev()\<close> restores the active index, also when the
  first call wraps from the last item to the first.
\<close>

theorem C10_next_then_prev:
  assumes "loop (config s)" and "items s \<noteq> []"
    and "0 \<le> activeIndex s" and "activeIndex s < int (length (items s))"
  shows "activeIndex (prev_slide (next_slide s)) = activeIndex s"
proof -
  from assms(2) have pos: "0 < int (length (items s))" by simp
  show ?thesis
  proof (cases "activeIndex s + 1 < int (length (items s))")
    case True
    with assms pos show ?thesis
      by (simp add: prev_slide_def next_slide_def goto_activeIndex goto_items goto_config
          Let_def)
  next
    case False
    with assms have "activeIndex s = int (length (items s)) - 1" by linarith
    with assms pos show ?thesis
      by (simp add: prev_slide_def next_slide_def goto_activeIndex goto_items goto_config
          Let_def)
  qed
qed

theorem C10_next_then_prev_witness:
  "activeIndex (goto 4 True (construct looping (replicate 5 photo) 800)) = 4 \<and>
   activeIndex (next_slide (goto 4 True (construct looping (replicate 5 photo) 800))) = 0 \<and>
   activeIndex (prev_slide (next_slide (goto 4 True (construct looping (replicate 5 photo) 800)))) = 4"
proof -
  let ?s = "construct looping (replicate 5 photo) 800"
  let ?t = "goto 4 True ?s"
  have items: "items ?t = replicate 5 photo"
    by (simp add: construct_def render_def goto_items looping_def defaults_def
        autoplayOn_def Let_def)
  have h1: "loop (config ?t)"
    by (simp add: construct_def render_def goto_config looping_def defaults_def
        autoplayOn_def Let_def)
  have idx: "activeIndex ?t = 4"
    by (simp add: construct_def render_def goto_activeIndex goto_items goto_config
        looping_def defaults_def autoplayOn_def Let_def)
  have h2: "items ?t \<noteq> []" using items by simp
  have h3: "0 \<le> activeIndex ?t" using idx by simp
  have h4: "activeIndex ?t < int (length (items ?t))" using idx items by simp
  have wrap: "activeIndex (next_slide ?t) = 0"
    using idx items h1 by (simp add: next_slide_def goto_activeIndex Let_def)
  from C10_next_then_prev [OF h1 h2 h3 h4] idx wrap show ?thesis by simp
qed

section \<open>Claims about the gesture tracker\<close>

text \<open>
  C1, as the code has it. \<^verbatim>\<open>_touchEnd\<close> never commits a drag: whatever the start
  position, the positions of the moves and the position of the release, a gesture on a
  widget whose active index is the index of an item ends with \<^verbatim>\<open>isDragging\<close> cleared
  and the active index where it was before the gesture (a snap back through
  \<^verbatim>\<open>goto(this.activeIndex)\<close>, animated).
\<close>

theorem C1_drag_always_snaps_back:
  assumes "0 \<le> activeIndex s" and "activeIndex s < int (length (items s))"
  shows "activeIndex (dragSession down moves up s) = activeIndex s \<and>
         \<not> isDragging (dragSession down moves up s) \<and>
         emitted (dragging down moves s) (dragSession down moves up s) =
           emitted s (goto (activeIndex s) True s)"
proof -
  let ?d = "dragging down moves s"
  let ?e = "?d\<lparr>isDragging := False\<rparr>"
  have keep: "activeIndex ?d = activeIndex s" "items ?d = items s" "config ?d = config s"
    by (simp_all add: dragging_keeps)
  have idx: "activeIndex (goto (activeIndex s) True ?e) = activeIndex s"
    using assms keep by (simp add: goto_activeIndex Let_def)
  have idx': "activeIndex (goto (activeIndex s) True s) = activeIndex s"
    using assms by (simp add: goto_activeIndex Let_def)
  have log: "domLog (goto (activeIndex s) True ?e) =
             domLog ?d @ emitted s (goto (activeIndex s) True s)"
    unfolding emitted_def goto_domLog [of "activeIndex s" True ?e]
      goto_domLog [of "activeIndex s" True s] idx idx'
    using keep by simp
  show ?thesis
    using idx log keep
    by (simp add: dragSession_def touchEnd_def Let_def goto_isDragging emitted_def)
qed

theorem C1_drag_always_snaps_back_witness:
  "activeIndex (goto 2 True (construct defaults (replicate 5 photo) 800)) = 2 \<and>
   activeIndex
     (dragSession (TouchEvent 300 []) [TouchEvent 250 [], TouchEvent 120 []] None
        (goto 2 True (construct defaults (replicate 5 photo) 800))) = 2 \<and>
   \<not> isDragging
     (dragSession (TouchEvent 300 []) [TouchEvent 250 [], TouchEvent 120 []] None
        (goto 2 True (construct defaults (replicate 5 photo) 800)))"
proof -
  let ?s = "goto 2 True (construct defaults (replicate 5 photo) 800)"
  have items: "items ?s = replicate 5 photo"
    by (simp add: construct_def render_def goto_items defaults_def autoplayOn_def Let_def)
  have idx: "activeIndex ?s = 2"
    by (simp add: construct_def render_def goto_activeIndex goto_items goto_config
        defaults_def autoplayOn_def Let_def)
  have h1: "0 \<le> activeIndex ?s" using idx by simp
  have h2: "activeIndex ?s < int (length (items ?s))" using idx items by simp
  from C1_drag_always_snaps_back [OF h1 h2,
      of "TouchEvent 300 []" "[TouchEvent 250 [], TouchEvent 120 []]" None] idx
  show ?thesis by simp
qed

text \<open>
  C1, as the specification states it, fails: with five items in Clamp mode and active
  index 2, a mouse drag that starts at position 100, moves to position 40 and is released
  there (60 pixels to the left, beyond the threshold of 50) leaves the active index at 2,
  not at 3.
\<close>

theorem C1_commit_counterexample:
  "\<not> loop (config (goto 2 True (construct defaults (replicate 5 photo) 800))) \<and>
   3 < length (items (goto 2 True (construct defaults (replicate 5 photo) 800))) \<and>
   activeIndex (goto 2 True (construct defaults (replicate 5 photo) 800)) = 2 \<and>
   \<bar>getPositionX (MouseEvent 40) - getPositionX (MouseEvent 100)\<bar> \<ge> 50 \<and>
   activeIndex
     (dragSession (MouseEvent 100) [MouseEvent 40] (Some (MouseEvent 40))
        (goto 2 True (construct defaults (replicate 5 photo) 800))) = 2 \<and>
   activeIndex
     (dragSession (MouseEvent 100) [MouseEvent 40] (Some (MouseEvent 40))
        (goto 2 True (construct defaults (replicate 5 photo) 800))) \<noteq> 3"
  by (simp add: dragSession_def dragging_def touchEnd_def touchMove_def touchStart_def
      construct_def render_def goto_def defaults_def autoplayOn_def navOn_def Let_def)

text \<open>
  C8. \<^verbatim>\<open>_touchMove\<close> never changes the active index. While a drag is active it changes
  nothing but the DOM, where it writes one transform of the track; while no drag is active
  it changes nothing at all.
\<close>

theorem C8_move_keeps_index:
  "activeIndex (touchMove e s) = activeIndex s \<and>
   (isDragging s \<longrightarrow> (\<exists>p. touchMove e s = s\<lparr>domLog := domLog s @ [SetTransform p]\<rparr>)) \<and>
   (\<not> isDragging s \<longrightarrow> touchMove e s = s)"
proof (intro conjI impI)
  show "activeIndex (touchMove e s) = activeIndex s"
    by (rule touchMove_activeIndex)
next
  assume "isDragging s"
  then show "\<exists>p. touchMove e s = s\<lparr>domLog := domLog s @ [SetTransform p]\<rparr>"
    unfolding touchMove_def Let_def by (simp del: ex_simps) blast
next
  assume "\<not> isDragging s"
  then show "touchMove e s = s"
    by (simp add: touchMove_def)
qed

theorem C8_move_keeps_index_witness:
  "isDragging (touchStart (MouseEvent 100) (construct defaults (replicate 5 photo) 800)) \<and>
   activeIndex
     (touchMove (MouseEvent 40)
        (touchStart (MouseEvent 100) (construct defaults (replicate 5 photo) 800))) = 0 \<and>
   emitted (touchStart (MouseEvent 100) (construct defaults (replicate 5 photo) 800))
     (touchMove (MouseEvent 40)
        (touchStart (MouseEvent 100) (construct defaults (replicate 5 photo) 800))) =
     [SetTransform (Pct (- (15 / 2)))] \<and>
   \<not> isDragging (construct defaults (replicate 5 photo) 800) \<and>
   touchMove (MouseEvent 40) (construct defaults (replicate 5 photo) 800) =
     construct defaults (replicate 5 photo) 800"
proof -
  let ?i = "construct defaults (replicate 5 photo) 800"
  let ?d = "touchStart (MouseEvent 100) ?i"
  have idle: "\<not> isDragging ?i"
    by (simp add: construct_def render_def goto_isDragging defaults_def autoplayOn_def
        Let_def)
  have drag: "isDragging ?d"
    by (simp add: touchStart_def Let_def)
  have idx: "activeIndex ?d = 0"
    by (simp add: touchStart_def construct_def render_def goto_activeIndex defaults_def
        autoplayOn_def Let_def)
  have hint: "emitted ?d (touchMove (MouseEvent 40) ?d) = [SetTransform (Pct (- (15 / 2)))]"
    using drag idx
    by (simp add: emitted_def touchMove_def Let_def)
       (simp add: touchStart_def construct_def render_def goto_def defaults_def
          autoplayOn_def navOn_def Let_def)
  from C8_move_keeps_index [of "MouseEvent 40" ?d]
       C8_move_keeps_index [of "MouseEvent 40" ?i] idle drag idx hint
  show ?thesis by simp
qed

text \<open>
  C9. With an active index that is the index of an item, repeating \<^verbatim>\<open>goto\<close> on the
  active index any number of times leaves the active index unchanged, and every repetition
  performs the same writes: the transition its own flag asks for, the transform
  \<open>-100 * activeIndex\<close> percent and, when there is a navigation strip, the highlight of
  the thumb of the active index.
\<close>

theorem C9_goto_current_idempotent:
  assumes "0 \<le> activeIndex s" and "activeIndex s < int (length (items s))"
  shows "activeIndex (regoto flags s) = activeIndex s \<and>
         emitted (regoto flags s) (goto (activeIndex (regoto flags s)) a (regoto flags s)) =
           [SetTransition (if a then TransEaseOut else TransNone),
            SetTransform (Pct (- (of_int (activeIndex s) * 100)))] @
           (if navOn (config s)
            then [ClearActive, AddActive (nat (activeIndex s)),
                  ScrollIntoView (nat (activeIndex s))]
            else [])"
proof -
  have keep: "activeIndex (regoto flags s) = activeIndex s \<and>
              items (regoto flags s) = items s \<and> config (regoto flags s) = config s"
    using assms unfolding regoto_def
  proof (induction flags arbitrary: s)
    case Nil
    then show ?case by simp
  next
    case (Cons f flags)
    let ?t = "goto (activeIndex s) f s"
    have t: "activeIndex ?t = activeIndex s" "items ?t = items s" "config ?t = config s"
      using Cons.prems by (simp_all add: goto_current goto_items goto_config)
    have "activeIndex (foldl (\<lambda>s' a. goto (activeIndex s') a s') ?t flags) = activeIndex ?t \<and>
          items (foldl (\<lambda>s' a. goto (activeIndex s') a s') ?t flags) = items ?t \<and>
          config (foldl (\<lambda>s' a. goto (activeIndex s') a s') ?t flags) = config ?t"
      using Cons.prems t by (intro Cons.IH) simp_all
    with t show ?case by simp
  qed
  let ?r = "regoto flags s"
  have again: "activeIndex (goto (activeIndex ?r) a ?r) = activeIndex s"
    using assms keep by (simp add: goto_activeIndex Let_def)
  have "domLog (goto (activeIndex ?r) a ?r) =
          domLog ?r @
          [SetTransition (if a then TransEaseOut else TransNone),
           SetTransform (Pct (- (of_int (activeIndex s) * 100)))] @
          (if navOn (config s)
           then [ClearActive, AddActive (nat (activeIndex s)),
                 ScrollIntoView (nat (activeIndex s))]
           else [])"
    unfolding goto_domLog [of "activeIndex ?r" a ?r] again
    using assms keep by auto
  with keep show ?thesis by (simp add: emitted_def)
qed

theorem C9_goto_current_idempotent_witness:
  "activeIndex (goto 2 True (construct defaults (replicate 5 photo) 800)) = 2 \<and>
   activeIndex
     (regoto [True, False, True] (goto 2 True (construct defaults (replicate 5 photo) 800))) = 2 \<and>
   emitted
     (regoto [True, False, True] (goto 2 True (construct defaults (replicate 5 photo) 800)))
     (goto 2 True
        (regoto [True, False, True] (goto 2 True (construct defaults (replicate 5 photo) 800)))) =
     [SetTransition TransEaseOut, SetTransform (Pct (- 200)),
      ClearActive, AddActive 2, ScrollIntoView 2]"
proof -
  let ?s = "goto 2 True (construct defaults (replicate 5 photo) 800)"
  have items: "items ?s = replicate 5 photo"
    by (simp add: construct_def render_def goto_items defaults_def autoplayOn_def Let_def)
  have idx: "activeIndex ?s = 2"
    by (simp add: construct_def render_def goto_activeIndex goto_items goto_config
        defaults_def autoplayOn_def Let_def)
  have strip: "navOn (config ?s)"
    by (simp add: construct_def render_def goto_config defaults_def autoplayOn_def
        navOn_def Let_def)
  have h1: "0 \<le> activeIndex ?s" using idx by simp
  have h2: "activeIndex ?s < int (length (items ?s))" using idx items by simp
  note r = C9_goto_current_idempotent [OF h1 h2, of "[True, False, True]" True]
  have same: "activeIndex (regoto [True, False, True] ?s) = 2"
    using r [THEN conjunct1] idx by simp
  have writes: "emitted (regoto [True, False, True] ?s)
       (goto (activeIndex (regoto [True, False, True] ?s)) True
          (regoto [True, False, True] ?s)) =
     [SetTransition TransEaseOut, SetTransform (Pct (- 200)),
      ClearActive, AddActive 2, ScrollIntoView 2]"
    using r [THEN conjunct2] idx strip by simp
  from idx same writes show ?thesis by simp
qed

section \<open>Claims about the empty gallery, autoplay and a release without a drag\<close>

text \<open>
  C5, as the code has it. \<^verbatim>\<open>goto\<close> has no test for an empty item list. For every
  requested index and either flag it performs exactly two writes, the transition of the
  track and the transform of the index it stores; the navigation strip, which has no
  thumb, is not written. It leaves the items untouched.
\<close>

theorem C5_empty_goto_still_emits:
  assumes "items s = []"
  shows "emitted s (goto i a s) =
           [SetTransition (if a then TransEaseOut else TransNone),
            SetTransform (Pct (- (of_int (activeIndex (goto i a s)) * 100)))] \<and>
         items (goto i a s) = []"
proof -
  have "domLog (goto i a s) =
          domLog s @
          [SetTransition (if a then TransEaseOut else TransNone),
           SetTransform (Pct (- (of_int (activeIndex (goto i a s)) * 100)))]"
    unfolding goto_domLog [of i a s] using assms by auto
  with assms show ?thesis by (simp add: emitted_def goto_items)
qed

theorem C5_empty_goto_still_emits_witness:
  "items (construct looping [] 800) = [] \<and>
   emitted (construct looping [] 800) (goto 0 False (construct looping [] 800)) =
     [SetTransition TransNone, SetTransform (Pct 0)]"
proof -
  let ?s = "construct looping [] 800"
  have h: "items ?s = []"
    by (simp add: construct_def render_def goto_items looping_def defaults_def
        autoplayOn_def Let_def)
  have cfg: "loop (config ?s)" "navOn (config ?s)"
    by (simp_all add: construct_def render_def goto_config looping_def defaults_def
        autoplayOn_def navOn_def Let_def)
  have idx: "activeIndex (goto 0 False ?s) = 0"
    using h cfg by (simp add: goto_activeIndex Let_def)
  from C5_empty_goto_still_emits [OF h, of 0 False] h cfg idx
  show ?thesis by simp
qed

text \<open>
  C5, as the specification states it, fails: on a gallery built in Loop mode from no
  image the active index is 0, and \<^verbatim>\<open>prev()\<close> changes it to -1 and writes a
  transition and a transform; in Clamp mode the constructor's own \<^verbatim>\<open>goto(0, false)\<close>
  has already moved the active index from 0 to -1.
\<close>

theorem C5_empty_noop_counterexample:
  "items (construct looping [] 800) = [] \<and>
   activeIndex (construct looping [] 800) = 0 \<and>
   activeIndex (prev_slide (construct looping [] 800)) = - 1 \<and>
   emitted (construct looping [] 800) (prev_slide (construct looping [] 800)) =
     [SetTransition TransEaseOut, SetTransform (Pct 100)] \<and>
   prev_slide (construct looping [] 800) \<noteq> construct looping [] 800 \<and>
   activeIndex (construct defaults [] 800) = - 1"
proof -
  let ?s = "construct looping [] 800"
  have h: "items ?s = []"
    by (simp add: construct_def render_def goto_items looping_def defaults_def
        autoplayOn_def Let_def)
  have cfg: "loop (config ?s)" "navOn (config ?s)"
    by (simp_all add: construct_def render_def goto_config looping_def defaults_def
        autoplayOn_def navOn_def Let_def)
  have idx: "activeIndex ?s = 0"
    by (simp add: construct_def render_def goto_activeIndex looping_def defaults_def
        autoplayOn_def Let_def)
  have moved: "activeIndex (prev_slide ?s) = - 1"
    using h cfg idx by (simp add: prev_slide_def goto_activeIndex Let_def)
  have writes: "emitted ?s (prev_slide ?s) =
     [SetTransition TransEaseOut, SetTransform (Pct 100)]"
    using h cfg moved unfolding emitted_def prev_slide_def goto_domLog [of _ True ?s]
    by simp
  have differs: "prev_slide ?s \<noteq> ?s"
  proof
    assume "prev_slide ?s = ?s"
    then have "activeIndex (prev_slide ?s) = activeIndex ?s" by simp
    with moved idx show False by simp
  qed
  have clamp: "activeIndex (construct defaults [] 800) = - 1"
    by (simp add: construct_def render_def goto_activeIndex defaults_def autoplayOn_def
        Let_def)
  from h idx moved writes differs clamp show ?thesis by simp
qed




text \<open>
  C7, evaluated on the code. On a gallery of three images that has just been built, no
  drag is active. The \<^verbatim>\<open>mouseup\<close> and \<^verbatim>\<open>touchend\<close> listeners call
  \<^verbatim>\<open>_touchEnd\<close>, which has no test of \<^verbatim>\<open>isDragging\<close>: the active index and the drag
  flag stay as they were, and the widget writes a transition, a transform and the highlight
  of the first thumb. The \<^verbatim>\<open>mouseleave\<close> listener of the stage, which tests the flag
  before it calls \<^verbatim>\<open>_touchEnd\<close>, changes nothing on the same widget.
\<close>

theorem C7_idle_release_emits:
  "\<not> isDragging (construct defaults (replicate 3 photo) 800) \<and>
   activeIndex (touchEnd (Some (MouseEvent 10)) (construct defaults (replicate 3 photo) 800)) =
     activeIndex (construct defaults (replicate 3 photo) 800) \<and>
   \<not> isDragging (touchEnd (Some (MouseEvent 10)) (construct defaults (replicate 3 photo) 800)) \<and>
   emitted (construct defaults (replicate 3 photo) 800)
     (touchEnd (Some (MouseEvent 10)) (construct defaults (replicate 3 photo) 800)) =
     [SetTransition TransEaseOut, SetTransform (Pct 0),
      ClearActive, AddActive 0, ScrollIntoView 0] \<and>
   touchEnd (Some (MouseEvent 10)) (construct defaults (replicate 3 photo) 800) \<noteq>
     construct defaults (replicate 3 photo) 800 \<and>
   stage_mouseleave (construct defaults (replicate 3 photo) 800) =
     construct defaults (replicate 3 photo) 800"
proof -
  let ?s = "construct defaults (replicate 3 photo) 800"
  let ?e = "touchEnd (Some (MouseEvent 10)) ?s"
  have s: "\<not> isDragging ?s" "activeIndex ?s = 0" "items ?s = replicate 3 photo"
    "\<not> loop (config ?s)" "navOn (config ?s)"
    by (simp_all add: construct_def render_def goto_def defaults_def autoplayOn_def
        navOn_def Let_def)
  have same: "?s\<lparr>isDragging := False\<rparr> = ?s"
    using s(1) by simp
  have e: "?e = goto 0 True ?s"
    using s(2) same by (simp add: touchEnd_def Let_def)
  have idx: "activeIndex ?e = 0"
    unfolding e using s by (simp add: goto_activeIndex Let_def)
  have flag: "\<not> isDragging ?e"
    unfolding e using s by (simp add: goto_isDragging)
  have writes: "emitted ?s ?e =
     [SetTransition TransEaseOut, SetTransform (Pct 0),
      ClearActive, AddActive 0, ScrollIntoView 0]"
    using s idx [unfolded e] unfolding e emitted_def goto_domLog [of 0 True ?s] by simp
  have differs: "?e \<noteq> ?s"
  proof
    assume "?e = ?s"
    then have "emitted ?s ?e = emitted ?s ?s" by simp
    with writes show False by (simp add: emitted_def)
  qed
  have guarded: "stage_mouseleave ?s = ?s"
    using s(1) by (simp add: stage_mouseleave_def)
  from s idx flag writes differs guarded show ?thesis by simp
qed

end
